theory Spec2Isabelle
  imports Main "HOL-Library.AList"
begin

section \<open>The component registry of src/scene/models/Model.js\<close>

subsection \<open>JavaScript values\<close>

text \<open>
  A JavaScript object used as a dictionary is an association list in insertion order:
  assigning to an existing key keeps its place, assigning to a new key appends it,
  \<^verbatim>\<open>delete\<close> drops the key. A lookup reads own properties only: ids, type tags, entity
  types and GUIDs are taken to differ from the names that every JavaScript object
  inherits, such as \<^verbatim>\<open>constructor\<close>.
\<close>

type_synonym 'v jsobject = "(string \<times> 'v) list"

abbreviation get_prop :: "'v jsobject \<Rightarrow> string \<Rightarrow> 'v option" where
  "get_prop obj k \<equiv> map_of obj k"

abbreviation set_prop :: "'v jsobject \<Rightarrow> string \<Rightarrow> 'v \<Rightarrow> 'v jsobject" where
  "set_prop obj k v \<equiv> AList.update k v obj"

abbreviation delete_prop :: "'v jsobject \<Rightarrow> string \<Rightarrow> 'v jsobject" where
  "delete_prop obj k \<equiv> AList.delete k obj"

text \<open>
  \<^verbatim>\<open>Object.keys(obj)\<close> and \<^verbatim>\<open>for (id in obj)\<close> enumerate the keys that are array
  indices first, in ascending numeric order, and then the other keys in insertion
  order. An array index is the decimal numeral, without a leading zero, of an integer
  below \<open>2\<^sup>3\<^sup>2 - 1\<close>.
\<close>

definition is_digit :: "char \<Rightarrow> bool" where
  "is_digit c = (48 \<le> (of_char c :: nat) \<and> (of_char c :: nat) \<le> 57)"

definition index_value :: "string \<Rightarrow> nat" where
  "index_value k = foldl (\<lambda>n c. 10 * n + (of_char c - 48)) 0 k"

definition is_index :: "string \<Rightarrow> bool" where
  "is_index k =
     (case k of
        [] \<Rightarrow> False
      | c # cs \<Rightarrow> list_all is_digit k \<and> (if c = CHR ''0'' then cs = [] else True) \<and>
                 index_value k < 4294967295)"

definition Object_keys :: "'v jsobject \<Rightarrow> string list" where
  "Object_keys obj =
     sort_key index_value (filter is_index (map fst obj)) @
     filter (\<lambda>k. \<not> is_index k) (map fst obj)"

text \<open>The values that an object holds under the keys \<open>ks\<close>, in the order of \<open>ks\<close>.\<close>

fun values_of :: "'v jsobject \<Rightarrow> string list \<Rightarrow> 'v list" where
  "values_of obj [] = []"
| "values_of obj (k # ks) =
     (case get_prop obj k of None \<Rightarrow> values_of obj ks | Some v \<Rightarrow> v # values_of obj ks)"

text \<open>
  An optional string property (\<^verbatim>\<open>entityType\<close>, \<^verbatim>\<open>guid\<close>, a configuration's \<^verbatim>\<open>type\<close>) is
  tested by truthiness: \<^verbatim>\<open>undefined\<close> and the empty string are both falsy.
\<close>

definition truthy :: "string option \<Rightarrow> bool" where
  "truthy s = (case s of None \<Rightarrow> False | Some t \<Rightarrow> t \<noteq> [])"

subsection \<open>Objects and the store\<close>

text \<open>
  Components and Models are mutable objects that are shared by reference, so they live
  in a store and are named by their addresses.
\<close>

type_synonym ref = nat
type_synonym mref = nat

record component =
  id_c :: string
  type_c :: string
  scene_c :: nat
  model :: "mref option"
  entityType :: "string option"
  guid :: "string option"
  isObject :: bool
  isMesh :: bool

record Model =
  id_m :: string
  scene_m :: nat
  components :: "ref jsobject"
  numComponents :: nat
  types :: "ref jsobject jsobject"
  objects :: "ref jsobject"
  guidObjects :: "ref jsobject"
  meshes :: "ref jsobject"
  entities :: "ref jsobject"
  entityTypes :: "ref jsobject jsobject"
  p_objectGUIDs :: "string list option"
  p_entityIds :: "string list option"
  p_entityTypeIds :: "string list option"

text \<open>
  The diagnostics of \<^verbatim>\<open>this.warn\<close> and \<^verbatim>\<open>this.error\<close>, one constructor per message of
  \<^verbatim>\<open>_addComponent\<close>: "Component not found" (a warning), "Not a xeokit component type"
  with the type, "Attempted to add component from different xeokit.Scene" with the
  component's id.
\<close>

datatype diagnostic =
  ComponentNotFound
| NotAComponentType string
| DifferentScene string

record world =
  heap :: "ref \<Rightarrow> component"
  models :: "mref \<Rightarrow> Model"
  diagnostics :: "diagnostic list"
  destroyed :: "ref list"

text \<open>
  What \<^verbatim>\<open>_addComponent\<close> and \<^verbatim>\<open>clear\<close> use and the file does not define, as parameters:
  the component table of each scene (\<^verbatim>\<open>this.scene.components\<close>),
  \<^verbatim>\<open>core.isComponentType\<close>, the constructor call \<^verbatim>\<open>new window[type](this.scene, cfg)\<close>
  (it yields the address of the component it made), and whether a component's
  \<^verbatim>\<open>destroy()\<close> calls back into its Model.
\<close>

record config =
  type_cfg :: "string option"

record externals =
  sceneComponents :: "nat \<Rightarrow> string \<Rightarrow> ref option"
  isComponentType :: "string \<Rightarrow> bool"
  construct :: "string \<Rightarrow> nat \<Rightarrow> config \<Rightarrow> ref"
  selfRemoves :: "ref \<Rightarrow> bool"

text \<open>
  The argument of \<^verbatim>\<open>_addComponent\<close>: a component ID (number or string), a component
  configuration (a plain object), or a component instance.
\<close>

datatype arg = ComponentId string | ComponentConfig config | ComponentInstance ref

subsection \<open>init\<close>

text \<open>
  The fields \<^verbatim>\<open>init\<close> sets; \<^verbatim>\<open>id\<close> and \<^verbatim>\<open>scene\<close> come from the base class.
  \<^verbatim>\<open>_entityTypeIds\<close> is not assigned there, and \<^verbatim>\<open>undefined\<close> is as falsy as \<^verbatim>\<open>null\<close>.
\<close>

definition init :: "string \<Rightarrow> nat \<Rightarrow> Model" where
  "init i s =
     \<lparr> id_m = i, scene_m = s,
       components = [], numComponents = 0, types = [], objects = [],
       guidObjects = [], meshes = [], entities = [], entityTypes = [],
       p_objectGUIDs = None, p_entityIds = None, p_entityTypeIds = None \<rparr>"

subsection \<open>Removing a component\<close>

text \<open>\<^verbatim>\<open>_removeComponent\<close>, lines 238-256, on the fields of the Model.\<close>

definition removeComponent_m :: "component \<Rightarrow> Model \<Rightarrow> Model" where
  "removeComponent_m c m =
     (let i = id_c c;
          m1 = m\<lparr> components := delete_prop (components m) i,
                  meshes := delete_prop (meshes m) i,
                  objects := delete_prop (objects m) i \<rparr>;
          m2 = (case entityType c of
                  None \<Rightarrow> m1
                | Some et \<Rightarrow>
                    if et = [] then m1
                    else m1\<lparr> entities := delete_prop (entities m1) i,
                             entityTypes :=
                               (case get_prop (entityTypes m1) et of
                                  None \<Rightarrow> entityTypes m1
                                | Some objectsOfType \<Rightarrow>
                                    set_prop (entityTypes m1) et (delete_prop objectsOfType i)),
                             p_entityIds := None,
                             p_entityTypeIds := None \<rparr>)
      in (case guid c of
            None \<Rightarrow> m2
          | Some g \<Rightarrow>
              if g = [] then m2
              else m2\<lparr> guidObjects := delete_prop (guidObjects m2) g,
                       p_objectGUIDs := None \<rparr>))"

definition removeComponent :: "mref \<Rightarrow> ref \<Rightarrow> world \<Rightarrow> world" where
  "removeComponent this component w =
     w\<lparr> models := (models w)(this := removeComponent_m (heap w component) (models w this)) \<rparr>"

subsection \<open>Adding a component\<close>

text \<open>\<^verbatim>\<open>_addComponent\<close>, lines 205-233: the component enters the indices of the Model.\<close>

definition addComponent_m :: "ref \<Rightarrow> component \<Rightarrow> Model \<Rightarrow> Model" where
  "addComponent_m component c m =
     (let i = id_c c;
          m1 = m\<lparr> components := set_prop (components m) i component,
                  types :=
                    set_prop (types m) (type_c c)
                      (set_prop (case get_prop (types m) (type_c c) of
                                   None \<Rightarrow> [] | Some ts \<Rightarrow> ts) i component) \<rparr>;
          m2 = (if isObject c then
                  (let o1 = m1\<lparr> objects := set_prop (objects m1) i component \<rparr>;
                       o2 = (case entityType c of
                               None \<Rightarrow> o1
                             | Some et \<Rightarrow>
                                 if et = [] then o1
                                 else o1\<lparr> entities := set_prop (entities o1) i component,
                                          entityTypes :=
                                            set_prop (entityTypes o1) et
                                              (set_prop (case get_prop (entityTypes o1) et of
                                                           None \<Rightarrow> []
                                                         | Some objectsOfType \<Rightarrow> objectsOfType)
                                                 i component),
                                          p_entityIds := None,
                                          p_entityTypeIds := None \<rparr>);
                       o3 = (case guid c of
                               None \<Rightarrow> o2
                             | Some g \<Rightarrow>
                                 if g = [] then o2
                                 else o2\<lparr> guidObjects := set_prop (guidObjects o2) i component,
                                          p_objectGUIDs := None \<rparr>)
                   in if isMesh c then o3\<lparr> meshes := set_prop (meshes o3) i component \<rparr>
                      else o3)
                else m1)
      in m2\<lparr> numComponents := numComponents m2 + 1 \<rparr>)"

text \<open>
  Modelled from the spec: \<^verbatim>\<open>component._addedToModel(this)\<close> is defined in the
  Component class; the attach "sets the component's model back-reference to this
  registry".
\<close>

definition addedToModel :: "mref \<Rightarrow> ref \<Rightarrow> world \<Rightarrow> world" where
  "addedToModel this component w =
     w\<lparr> heap := (heap w)(component := (heap w component)\<lparr> model := Some this \<rparr>) \<rparr>"

text \<open>\<^verbatim>\<open>component.type || "Component"\<close> of a configuration.\<close>

definition typeOf :: "config \<Rightarrow> string" where
  "typeOf cfg = (case type_cfg cfg of None \<Rightarrow> ''Component''
                 | Some t \<Rightarrow> if t = [] then ''Component'' else t)"

text \<open>
  Lines 181-194: the argument becomes a component, or the call ends with a
  diagnostic.
\<close>

definition resolve :: "externals \<Rightarrow> mref \<Rightarrow> arg \<Rightarrow> world \<Rightarrow> diagnostic + ref" where
  "resolve ext this a w =
     (case a of
        ComponentId k \<Rightarrow>
          (case sceneComponents ext (scene_m (models w this)) k of
             None \<Rightarrow> Inl ComponentNotFound
           | Some component \<Rightarrow> Inr component)
      | ComponentConfig cfg \<Rightarrow>
          if \<not> isComponentType ext (typeOf cfg) then Inl (NotAComponentType (typeOf cfg))
          else Inr (construct ext (typeOf cfg) (scene_m (models w this)) cfg)
      | ComponentInstance component \<Rightarrow> Inr component)"

definition addComponent :: "externals \<Rightarrow> mref \<Rightarrow> arg \<Rightarrow> world \<Rightarrow> ref option \<times> world" where
  "addComponent ext this a w =
     (case resolve ext this a w of
        Inl d \<Rightarrow> (None, w\<lparr> diagnostics := diagnostics w @ [d] \<rparr>)
      | Inr component \<Rightarrow>
          if scene_c (heap w component) \<noteq> scene_m (models w this) then
            (None, w\<lparr> diagnostics :=
                         diagnostics w @ [DifferentScene (id_c (heap w component))] \<rparr>)
          else if get_prop (components (models w this)) (id_c (heap w component)) \<noteq> None then
            (None, w)
          else
            (let w1 = (case model (heap w component) of
                         None \<Rightarrow> w
                       | Some other \<Rightarrow>
                           if id_m (models w other) \<noteq> id_m (models w this)
                           then removeComponent other component w
                           else w);
                 w2 = w1\<lparr> models := (models w1)(this :=
                            addComponent_m component (heap w1 component) (models w1 this)) \<rparr>
             in (Some component, addedToModel this component w2)))"

subsection \<open>clear\<close>

text \<open>
  Modelled from the spec: \<^verbatim>\<open>destroy()\<close> of a component is defined in the Component
  class. It is a destroy notification (recorded in \<open>destroyed\<close>) that "triggers
  self-removal from its current registry as part of teardown"; \<open>selfRemoves\<close> says
  for which components the call-back into \<^verbatim>\<open>_removeComponent\<close> really happens.
\<close>

definition destroy :: "externals \<Rightarrow> ref \<Rightarrow> world \<Rightarrow> world" where
  "destroy ext component w =
     (let w1 = w\<lparr> destroyed := destroyed w @ [component] \<rparr>
      in if selfRemoves ext component then
           (case model (heap w1 component) of
              None \<Rightarrow> w1
            | Some owner \<Rightarrow> removeComponent owner component w1)
         else w1)"

text \<open>
  One \<^verbatim>\<open>for (var id in obj) if (obj.hasOwnProperty(id)) obj[id].destroy()\<close> loop:
  the keys are those the object had when the loop started, and a key that was
  deleted before its turn is skipped. \<open>sel\<close> reads the object (\<^verbatim>\<open>this.meshes\<close> or
  \<^verbatim>\<open>this.components\<close>) afresh at every turn.
\<close>

fun destroyEach :: "externals \<Rightarrow> mref \<Rightarrow> (Model \<Rightarrow> ref jsobject) \<Rightarrow> string list \<Rightarrow> world \<Rightarrow> world" where
  "destroyEach ext this sel [] w = w"
| "destroyEach ext this sel (i # ids) w =
     (case get_prop (sel (models w this)) i of
        None \<Rightarrow> destroyEach ext this sel ids w
      | Some component \<Rightarrow> destroyEach ext this sel ids (destroy ext component w))"

definition clear :: "externals \<Rightarrow> mref \<Rightarrow> world \<Rightarrow> world" where
  "clear ext this w =
     (let w1 = destroyEach ext this meshes (Object_keys (meshes (models w this))) w;
          w2 = destroyEach ext this components (Object_keys (components (models w1 this))) w1
      in w2\<lparr> models := (models w2)(this :=
              (models w2 this)\<lparr> components := [], numComponents := 0, types := [],
                                 objects := [], meshes := [], entities := [] \<rparr>) \<rparr>)"

subsection \<open>The cached projections\<close>

definition objectGUIDs :: "mref \<Rightarrow> world \<Rightarrow> string list \<times> world" where
  "objectGUIDs this w =
     (case p_objectGUIDs (models w this) of
        None \<Rightarrow>
          (let ks = Object_keys (guidObjects (models w this))
           in (ks, w\<lparr> models := (models w)(this := (models w this)\<lparr> p_objectGUIDs := Some ks \<rparr>) \<rparr>))
      | Some ks \<Rightarrow> (ks, w))"

definition entityTypeIds :: "mref \<Rightarrow> world \<Rightarrow> string list \<times> world" where
  "entityTypeIds this w =
     (case p_entityTypeIds (models w this) of
        None \<Rightarrow>
          (let ks = Object_keys (entityTypes (models w this))
           in (ks, w\<lparr> models := (models w)(this := (models w this)\<lparr> p_entityTypeIds := Some ks \<rparr>) \<rparr>))
      | Some ks \<Rightarrow> (ks, w))"

definition entityIds :: "mref \<Rightarrow> world \<Rightarrow> string list \<times> world" where
  "entityIds this w =
     (case p_entityIds (models w this) of
        None \<Rightarrow>
          (let ks = Object_keys (entities (models w this))
           in (ks, w\<lparr> models := (models w)(this := (models w this)\<lparr> p_entityIds := Some ks \<rparr>) \<rparr>))
      | Some ks \<Rightarrow> (ks, w))"

subsection \<open>Sequences of operations\<close>

datatype operation =
  Add mref arg
| Remove mref ref
| Clear mref
| ReadObjectGUIDs mref
| ReadEntityTypeIds mref
| ReadEntityIds mref

fun apply_op :: "externals \<Rightarrow> world \<Rightarrow> operation \<Rightarrow> world" where
  "apply_op ext w (Add this a) = snd (addComponent ext this a w)"
| "apply_op ext w (Remove this component) = removeComponent this component w"
| "apply_op ext w (Clear this) = clear ext this w"
| "apply_op ext w (ReadObjectGUIDs this) = snd (objectGUIDs this w)"
| "apply_op ext w (ReadEntityTypeIds this) = snd (entityTypeIds this w)"
| "apply_op ext w (ReadEntityIds this) = snd (entityIds this w)"

definition run :: "externals \<Rightarrow> world \<Rightarrow> operation list \<Rightarrow> world" where
  "run ext w ops = foldl (apply_op ext) w ops"

text \<open>
  The world in which every Model has just been created by \<open>init\<close>: \<open>h\<close> holds the
  components, \<open>ids\<close> and \<open>scenes\<close> give each Model its id and scene.
\<close>

definition created :: "(ref \<Rightarrow> component) \<Rightarrow> (mref \<Rightarrow> string) \<Rightarrow> (mref \<Rightarrow> nat) \<Rightarrow> world" where
  "created h ids scenes =
     \<lparr> heap = h, models = (\<lambda>m. init (ids m) (scenes m)), diagnostics = [], destroyed = [] \<rparr>"

subsection \<open>The consistency of a registry\<close>

text \<open>
  What the indices of one Model satisfy in every world that the operations reach: keys
  are not repeated, a component is filed under its own id, \<open>objects\<close> is part of
  \<open>components\<close>, \<open>meshes\<close> is part of \<open>objects\<close>, and \<open>meshes\<close> holds the
  mesh-flagged objects and only mesh-flagged components.
\<close>

definition registry_inv :: "(ref \<Rightarrow> component) \<Rightarrow> Model \<Rightarrow> bool" where
  "registry_inv h m \<longleftrightarrow>
     distinct (map fst (components m)) \<and>
     distinct (map fst (meshes m)) \<and>
     (\<forall>k r. get_prop (components m) k = Some r \<longrightarrow> id_c (h r) = k) \<and>
     (\<forall>k r. get_prop (objects m) k = Some r \<longrightarrow> get_prop (components m) k = Some r) \<and>
     (\<forall>k r. get_prop (meshes m) k = Some r \<longrightarrow>
            get_prop (objects m) k = Some r \<and> isMesh (h r)) \<and>
     (\<forall>k r. get_prop (components m) k = Some r \<and> isObject (h r) \<and> isMesh (h r) \<longrightarrow>
            get_prop (meshes m) k = Some r)"

text \<open>Every entity is an object of the Model and has an entity type.\<close>

definition entities_inv :: "(ref \<Rightarrow> component) \<Rightarrow> Model \<Rightarrow> bool" where
  "entities_inv h m \<longleftrightarrow>
     (\<forall>k r. get_prop (entities m) k = Some r \<longrightarrow>
            get_prop (objects m) k = Some r \<and> truthy (entityType (h r)))"

text \<open>
  Components that share an id agree on whether their entity type is set. It holds
  in particular when no two components share an id.
\<close>

definition namesakes_agree :: "(ref \<Rightarrow> component) \<Rightarrow> bool" where
  "namesakes_agree h \<longleftrightarrow>
     (\<forall>r r'. id_c (h r) = id_c (h r') \<longrightarrow>
             truthy (entityType (h r)) = truthy (entityType (h r')))"

text \<open>
  The invariant of a world; with \<open>e\<close> it includes the part about \<open>entities\<close>, which
  needs agreeing namesakes.
\<close>

definition world_inv :: "bool \<Rightarrow> world \<Rightarrow> bool" where
  "world_inv e w \<longleftrightarrow>
     (\<forall>m. registry_inv (heap w) (models w m)) \<and>
     (e \<longrightarrow> namesakes_agree (heap w) \<and> (\<forall>m. entities_inv (heap w) (models w m)))"

text \<open>
  A cached projection is fresh when it is empty or holds the current keys of its map.
\<close>

definition caches_fresh :: "Model \<Rightarrow> bool" where
  "caches_fresh m \<longleftrightarrow>
     p_objectGUIDs m \<in> {None, Some (Object_keys (guidObjects m))} \<and>
     p_entityTypeIds m \<in> {None, Some (Object_keys (entityTypes m))} \<and>
     p_entityIds m \<in> {None, Some (Object_keys (entities m))}"

definition world_fresh :: "world \<Rightarrow> bool" where
  "world_fresh w \<longleftrightarrow> (\<forall>m. caches_fresh (models w m))"

subsection \<open>A scene with two Models\<close>

text \<open>
  Scene 0 holds an object \<open>wall1\<close> with an entity type and a GUID (address 0), a mesh
  \<open>m1\<close> (address 1) and a plain component (every other address); Model 0 is
  \<open>modelA\<close>, every other Model is \<open>modelB\<close>; all Models are empty.
\<close>

definition wall1 :: component where
  "wall1 = \<lparr> id_c = ''wall1'', type_c = ''Object'', scene_c = 0, model = None,
             entityType = Some ''wall'', guid = Some ''G-1'',
             isObject = True, isMesh = False \<rparr>"

definition m1 :: component where
  "m1 = \<lparr> id_c = ''m1'', type_c = ''Mesh'', scene_c = 0, model = None,
          entityType = None, guid = None, isObject = True, isMesh = True \<rparr>"

definition plain :: component where
  "plain = \<lparr> id_c = ''c1'', type_c = ''Material'', scene_c = 0, model = None,
             entityType = None, guid = None, isObject = False, isMesh = False \<rparr>"

definition scene0 :: world where
  "scene0 = created ((\<lambda>_. plain)(0 := wall1, 1 := m1))
              ((\<lambda>_. ''modelB'')(0 := ''modelA'')) (\<lambda>_. 0)"

definition ext0 :: "bool \<Rightarrow> externals" where
  "ext0 b = \<lparr> sceneComponents = (\<lambda>s. map_of [(''wall1'', 0), (''m1'', 1)]),
             isComponentType = (\<lambda>t. t = ''Mesh''),
             construct = (\<lambda>t s cfg. 1),
             selfRemoves = (\<lambda>_. b) \<rparr>"

subsection \<open>A scene with namesakes\<close>



subsection \<open>A scene with numeric ids\<close>

text \<open>
  Two meshes with the ids \<open>b\<close> (address 0) and \<open>1\<close> (address 1), and an object
  that is no mesh with the id \<open>0\<close> (address 2).
\<close>

definition mesh_b :: component where
  "mesh_b = \<lparr> id_c = ''b'', type_c = ''Mesh'', scene_c = 0, model = None,
              entityType = None, guid = None, isObject = True, isMesh = True \<rparr>"

definition mesh_1 :: component where
  "mesh_1 = \<lparr> id_c = ''1'', type_c = ''Mesh'', scene_c = 0, model = None,
              entityType = None, guid = None, isObject = True, isMesh = True \<rparr>"

definition object_0 :: component where
  "object_0 = \<lparr> id_c = ''0'', type_c = ''Object'', scene_c = 0, model = None,
                entityType = None, guid = None, isObject = True, isMesh = False \<rparr>"

definition scene_numeric :: world where
  "scene_numeric = created ((\<lambda>_. plain)(0 := mesh_b, 1 := mesh_1, 2 := object_0))
                     (\<lambda>_. ''modelA'') (\<lambda>_. 0)"

section \<open>Theorems\<close>

lemmas scene_defs = scene0_def created_def wall1_def m1_def plain_def init_def ext0_def

lemmas key_defs = Object_keys_def is_index_def is_digit_def index_value_def

lemmas operation_defs =
  addComponent_def addComponent_m_def addedToModel_def resolve_def typeOf_def
  removeComponent_def removeComponent_m_def clear_def destroy_def
  entityIds_def objectGUIDs_def entityTypeIds_def run_def key_defs

subsection \<open>A successful add\<close>

text \<open>
  An add that passes the checks of lines 181-201 returns the component, files it in
  \<open>components\<close> under its id and in the sub-map of its type, and the component's
  \<open>model\<close> is this Model.
\<close>

lemma addComponent_m_attach:
  "get_prop (components (addComponent_m r c m)) (id_c c) = Some r"
  "\<exists>ts. get_prop (types (addComponent_m r c m)) (type_c c) = Some ts \<and> get_prop ts (id_c c) = Some r"
  "numComponents (addComponent_m r c m) = Suc (numComponents m)"
  by (simp_all add: addComponent_m_def Let_def update_conv' split: option.splits)

lemma add_attaches:
  assumes "resolve ext this a w = Inr c"
    and "scene_c (heap w c) = scene_m (models w this)"
    and "get_prop (components (models w this)) (id_c (heap w c)) = None"
  shows "fst (addComponent ext this a w) = Some c \<and>
         model (heap (snd (addComponent ext this a w)) c) = Some this \<and>
         get_prop (components (models (snd (addComponent ext this a w)) this)) (id_c (heap w c)) = Some c \<and>
         (\<exists>ts. get_prop (types (models (snd (addComponent ext this a w)) this)) (type_c (heap w c)) = Some ts \<and>
               get_prop ts (id_c (heap w c)) = Some c)"
  using assms
  by (simp add: addComponent_def Let_def addedToModel_def removeComponent_def addComponent_m_attach
      split: option.splits)

lemma add_attaches_example:
  "resolve (ext0 True) 0 (ComponentId ''wall1'') scene0 = Inr 0 \<and>
   scene_c (heap scene0 0) = scene_m (models scene0 0) \<and>
   get_prop (components (models scene0 0)) (id_c (heap scene0 0)) = None \<and>
   fst (addComponent (ext0 True) 0 (ComponentId ''wall1'') scene0) = Some 0 \<and>
   model (heap (snd (addComponent (ext0 True) 0 (ComponentId ''wall1'') scene0)) 0) = Some 0"
proof -
  have pre: "resolve (ext0 True) 0 (ComponentId ''wall1'') scene0 = Inr 0"
    "scene_c (heap scene0 0) = scene_m (models scene0 0)"
    "get_prop (components (models scene0 0)) (id_c (heap scene0 0)) = None"
    by (simp_all add: scene_defs resolve_def)
  from add_attaches [OF pre] pre show ?thesis by simp
qed

subsection \<open>The GUID index\<close>

text \<open>
  C1. For an attached component whose guid is set, add files it in \<open>guidObjects\<close>
  under its guid, and a later remove deletes that entry. The code does not: line 226
  files the object under its id, line 253 deletes the key that is its guid. For
  \<open>wall1\<close> (id \<open>wall1\<close>, guid \<open>G-1\<close>), after the add \<open>guidObjects\<close> has no entry
  under \<open>G-1\<close> but one under \<open>wall1\<close>, and after the remove that entry is still there.
\<close>

theorem guidObjects_filed_under_id:
  "get_prop (guidObjects (models (run (ext0 True) scene0 [Add 0 (ComponentInstance 0)]) 0)) ''G-1''
     = None \<and>
   get_prop (guidObjects (models (run (ext0 True) scene0 [Add 0 (ComponentInstance 0)]) 0)) ''wall1''
     = Some 0 \<and>
   guidObjects (models (run (ext0 True) scene0 [Add 0 (ComponentInstance 0), Remove 0 0]) 0)
     = [(''wall1'', 0)]"
  by (simp add: scene_defs operation_defs Let_def)

subsection \<open>The counter\<close>

text \<open>
  C2. \<open>numComponents\<close> is the number of keys of \<open>components\<close> after any sequence of
  operations. The code does not decrement in \<^verbatim>\<open>_removeComponent\<close>: after adding and
  removing \<open>wall1\<close> the counter is 1 and \<open>components\<close> has no key.
\<close>

theorem numComponents_not_decremented:
  "numComponents (models (run (ext0 True) scene0 [Add 0 (ComponentInstance 0), Remove 0 0]) 0) = 1 \<and>
   length (Object_keys (components
     (models (run (ext0 True) scene0 [Add 0 (ComponentInstance 0), Remove 0 0]) 0))) = 0"
  by (simp add: scene_defs operation_defs Let_def)

subsection \<open>Transfer between two Models\<close>

text \<open>
  C3. Adding to Model B a component that Model A owns leaves it in no index of A, in
  every applicable index of B, with B as its \<open>model\<close>. In the code the component gets
  B as its \<open>model\<close> and leaves \<open>components\<close>, \<open>objects\<close>, \<open>entities\<close> of A, but it
  stays in \<open>types\<close> and \<open>guidObjects\<close> of A, and B has no entry under its guid.
\<close>

theorem transfer_leaves_types_and_guidObjects:
  "model (heap (run (ext0 True) scene0 [Add 0 (ComponentInstance 0)]) 0) = Some 0 \<and>
   model (heap (run (ext0 True) scene0
     [Add 0 (ComponentInstance 0), Add 1 (ComponentInstance 0)]) 0) = Some 1 \<and>
   components (models (run (ext0 True) scene0
     [Add 0 (ComponentInstance 0), Add 1 (ComponentInstance 0)]) 0) = [] \<and>
   types (models (run (ext0 True) scene0
     [Add 0 (ComponentInstance 0), Add 1 (ComponentInstance 0)]) 0) = [(''Object'', [(''wall1'', 0)])] \<and>
   guidObjects (models (run (ext0 True) scene0
     [Add 0 (ComponentInstance 0), Add 1 (ComponentInstance 0)]) 0) = [(''wall1'', 0)] \<and>
   get_prop (guidObjects (models (run (ext0 True) scene0
     [Add 0 (ComponentInstance 0), Add 1 (ComponentInstance 0)]) 1)) ''G-1'' = None"
  by (simp add: scene_defs operation_defs Let_def)

subsection \<open>The indices after clear\<close>

text \<open>
  Lines 275-280: whatever the destroyed components did, these five indices are empty
  and the counter is 0 after \<open>clear\<close>.
\<close>

lemma clear_resets_five_indices:
  "components (models (clear ext this w) this) = [] \<and>
   numComponents (models (clear ext this w) this) = 0 \<and>
   types (models (clear ext this w) this) = [] \<and>
   objects (models (clear ext this w) this) = [] \<and>
   meshes (models (clear ext this w) this) = [] \<and>
   entities (models (clear ext this w) this) = []"
  by (simp add: clear_def Let_def)

text \<open>
  C4. After \<open>clear\<close> every index, \<open>entityTypes\<close> and \<open>guidObjects\<close> included, is empty
  and the counter is 0, whether or not the destroyed components removed themselves.
  The code resets \<open>components\<close>, \<open>numComponents\<close>, \<open>types\<close>, \<open>objects\<close>, \<open>meshes\<close>
  and \<open>entities\<close> only: a Model that held \<open>wall1\<close> keeps an \<open>entityTypes\<close> sub-map
  and a \<open>guidObjects\<close> entry, both when \<open>wall1\<close> removes itself on destroy and when
  it does not.
\<close>

theorem clear_keeps_entityTypes_and_guidObjects:
  "entityTypes (models (clear (ext0 True) 0
     (run (ext0 True) scene0 [Add 0 (ComponentInstance 0)])) 0) = [(''wall'', [])] \<and>
   guidObjects (models (clear (ext0 True) 0
     (run (ext0 True) scene0 [Add 0 (ComponentInstance 0)])) 0) = [(''wall1'', 0)] \<and>
   entityTypes (models (clear (ext0 False) 0
     (run (ext0 False) scene0 [Add 0 (ComponentInstance 0)])) 0) = [(''wall'', [(''wall1'', 0)])] \<and>
   guidObjects (models (clear (ext0 False) 0
     (run (ext0 False) scene0 [Add 0 (ComponentInstance 0)])) 0) = [(''wall1'', 0)]"
  by (simp add: scene_defs operation_defs Let_def)

subsection \<open>The type index\<close>

text \<open>
  C5. After remove, the sub-map \<open>types[t]\<close> has no entry for the removed component.
  \<^verbatim>\<open>_removeComponent\<close> never touches \<open>types\<close>: after adding and removing \<open>wall1\<close>, it
  is no key of \<open>components\<close> and still an entry of \<open>types[Object]\<close>.
\<close>

theorem remove_leaves_types_entry:
  "get_prop (components (models (run (ext0 True) scene0
     [Add 0 (ComponentInstance 0), Remove 0 0]) 0)) ''wall1'' = None \<and>
   get_prop (types (models (run (ext0 True) scene0
     [Add 0 (ComponentInstance 0), Remove 0 0]) 0)) ''Object'' = Some [(''wall1'', 0)]"
  by (simp add: scene_defs operation_defs Let_def)

subsection \<open>Freshness of the cached projections\<close>

text \<open>
  Add and remove reset a cache whenever they change its map, so without \<open>clear\<close>
  every read returns the current keys.
\<close>

lemma caches_fresh_init: "caches_fresh (init i s)"
  by (simp add: caches_fresh_def init_def)

lemma caches_fresh_remove: "caches_fresh m \<Longrightarrow> caches_fresh (removeComponent_m c m)"
  by (auto simp: caches_fresh_def removeComponent_m_def Let_def split: option.splits)

lemma caches_fresh_add: "caches_fresh m \<Longrightarrow> caches_fresh (addComponent_m r c m)"
  by (auto simp: caches_fresh_def addComponent_m_def Let_def split: option.splits)

lemma world_fresh_removeComponent: "world_fresh w \<Longrightarrow> world_fresh (removeComponent this c w)"
  by (simp add: world_fresh_def removeComponent_def caches_fresh_remove)

lemma world_fresh_addComponent:
  assumes "world_fresh w"
  shows "world_fresh (snd (addComponent ext this a w))"
proof (cases "resolve ext this a w")
  case (Inl d)
  with assms show ?thesis by (simp add: addComponent_def world_fresh_def)
next
  case (Inr c)
  define w1 where "w1 = (case model (heap w c) of
       None \<Rightarrow> w
     | Some other \<Rightarrow>
         if id_m (models w other) \<noteq> id_m (models w this)
         then removeComponent other c w else w)"
  have "world_fresh w1"
    using assms by (simp add: w1_def world_fresh_removeComponent split: option.splits)
  then have "world_fresh (addedToModel this c (w1\<lparr> models := (models w1)(this :=
        addComponent_m c (heap w1 c) (models w1 this)) \<rparr>))"
    by (simp add: world_fresh_def addedToModel_def caches_fresh_add)
  with Inr assms show ?thesis
    by (simp add: addComponent_def Let_def w1_def world_fresh_def)
qed

lemma world_fresh_reads:
  assumes "world_fresh w"
  shows "world_fresh (snd (objectGUIDs this w))" "world_fresh (snd (entityTypeIds this w))"
    "world_fresh (snd (entityIds this w))"
  using assms
  by (auto simp: objectGUIDs_def entityTypeIds_def entityIds_def Let_def world_fresh_def
      caches_fresh_def split: option.splits)

lemma world_fresh_apply_op:
  "world_fresh w \<Longrightarrow> (\<And>this. op \<noteq> Clear this) \<Longrightarrow> world_fresh (apply_op ext w op)"
  by (cases op)
    (auto simp: world_fresh_addComponent world_fresh_removeComponent world_fresh_reads)

lemma world_fresh_run:
  "world_fresh w \<Longrightarrow> (\<And>this. Clear this \<notin> set ops) \<Longrightarrow> world_fresh (run ext w ops)"
  unfolding run_def
proof (induction ops arbitrary: w)
  case Nil
  then show ?case by simp
next
  case (Cons op ops)
  from Cons.prems(2) have "op \<noteq> Clear this" for this by auto
  with Cons.prems(1) have "world_fresh (apply_op ext w op)" by (rule world_fresh_apply_op)
  moreover from Cons.prems(2) have "Clear this \<notin> set ops" for this by auto
  ultimately show ?case using Cons.IH by simp
qed

lemma projections_fresh_without_clear:
  assumes "\<forall>this. Clear this \<notin> set ops" and "w = run ext (created h ids scenes) ops"
  shows "fst (objectGUIDs this w) = Object_keys (guidObjects (models w this)) \<and>
         fst (entityTypeIds this w) = Object_keys (entityTypes (models w this)) \<and>
         fst (entityIds this w) = Object_keys (entities (models w this))"
proof -
  have "world_fresh (created h ids scenes)"
    by (simp add: world_fresh_def created_def caches_fresh_init)
  with assms have "world_fresh w" by (simp add: world_fresh_run)
  then have "caches_fresh (models w this)" by (simp add: world_fresh_def)
  then show ?thesis
    by (auto simp: caches_fresh_def objectGUIDs_def entityTypeIds_def entityIds_def Let_def
        split: option.splits)
qed

lemma projections_fresh_without_clear_example:
  "Clear 0 \<notin> set [Add 0 (ComponentInstance 0), ReadEntityIds 0, Add 0 (ComponentInstance 1), Remove 0 0] \<and>
   fst (entityIds 0 (run (ext0 True) scene0
      [Add 0 (ComponentInstance 0), ReadEntityIds 0, Add 0 (ComponentInstance 1), Remove 0 0])) = [] \<and>
   fst (entityIds 0 (run (ext0 True) scene0
      [Add 0 (ComponentInstance 0), ReadEntityIds 0, Add 0 (ComponentInstance 1), Remove 0 0]))
     = Object_keys (entities (models (run (ext0 True) scene0
      [Add 0 (ComponentInstance 0), ReadEntityIds 0, Add 0 (ComponentInstance 1), Remove 0 0]) 0))"
proof -
  have none: "\<forall>this. Clear this \<notin> set [Add 0 (ComponentInstance 0), ReadEntityIds 0,
      Add 0 (ComponentInstance 1), Remove 0 0]"
    by simp
  have read: "fst (entityIds 0 (run (ext0 True) scene0
      [Add 0 (ComponentInstance 0), ReadEntityIds 0, Add 0 (ComponentInstance 1), Remove 0 0])) = []"
    by (simp add: scene_defs operation_defs Let_def)
  from projections_fresh_without_clear [where ext = "ext0 True" and this = 0
      and ops = "[Add 0 (ComponentInstance 0), ReadEntityIds 0, Add 0 (ComponentInstance 1), Remove 0 0]"
      and w = "run (ext0 True) scene0
      [Add 0 (ComponentInstance 0), ReadEntityIds 0, Add 0 (ComponentInstance 1), Remove 0 0]"
      and h = "(\<lambda>_. plain)(0 := wall1, 1 := m1)" and ids = "(\<lambda>_. ''modelB'')(0 := ''modelA'')"
      and scenes = "\<lambda>_. 0", OF none] read
  show ?thesis by (simp add: scene0_def)
qed

text \<open>
  C6. After any sequence of operations a read of \<open>entityIds\<close> returns the current
  keys of \<open>entities\<close>. \<open>clear\<close> empties \<open>entities\<close> without resetting the cache that
  add and remove reset: when \<open>wall1\<close> does not remove itself on destroy, a read
  before the clear leaves \<open>[wall1]\<close> in the cache, and the read after the clear
  returns it while \<open>entities\<close> has no key.
\<close>

theorem entityIds_stale_after_clear:
  "fst (entityIds 0 (run (ext0 False) scene0
     [Add 0 (ComponentInstance 0), ReadEntityIds 0, Clear 0])) = [''wall1''] \<and>
   Object_keys (entities (models (run (ext0 False) scene0
     [Add 0 (ComponentInstance 0), ReadEntityIds 0, Clear 0]) 0)) = []"
  by (simp add: scene_defs operation_defs Let_def)

subsection \<open>Adding what is already there\<close>

text \<open>
  C7. When the id of a component is already a key of \<open>components\<close>, adding the
  component again (as an instance, or by an id that the scene resolves to it)
  returns nothing and changes no field of any Model and no component.
\<close>

theorem add_present_is_noop:
  assumes "a = ComponentInstance c \<or>
           (\<exists>k. a = ComponentId k \<and> sceneComponents ext (scene_m (models w this)) k = Some c)"
    and "get_prop (components (models w this)) (id_c (heap w c)) \<noteq> None"
  shows "fst (addComponent ext this a w) = None \<and>
         models (snd (addComponent ext this a w)) = models w \<and>
         heap (snd (addComponent ext this a w)) = heap w"
proof -
  from assms(1) have "resolve ext this a w = Inr c"
    by (auto simp: resolve_def)
  with assms(2) show ?thesis
    by (simp add: addComponent_def)
qed

theorem add_present_is_noop_witness:
  "get_prop (components (models (run (ext0 True) scene0 [Add 0 (ComponentInstance 0)]) 0))
      (id_c (heap (run (ext0 True) scene0 [Add 0 (ComponentInstance 0)]) 0)) \<noteq> None \<and>
   fst (addComponent (ext0 True) 0 (ComponentInstance 0)
          (run (ext0 True) scene0 [Add 0 (ComponentInstance 0)])) = None \<and>
   models (snd (addComponent (ext0 True) 0 (ComponentInstance 0)
          (run (ext0 True) scene0 [Add 0 (ComponentInstance 0)])))
     = models (run (ext0 True) scene0 [Add 0 (ComponentInstance 0)])"
proof -
  have present:
    "get_prop (components (models (run (ext0 True) scene0 [Add 0 (ComponentInstance 0)]) 0))
       (id_c (heap (run (ext0 True) scene0 [Add 0 (ComponentInstance 0)]) 0)) \<noteq> None"
    by (simp add: scene_defs operation_defs Let_def)
  from add_present_is_noop [of "ComponentInstance 0" 0 "ext0 True"
      "run (ext0 True) scene0 [Add 0 (ComponentInstance 0)]" 0, OF _ present] present
  show ?thesis by simp
qed

subsection \<open>Failed adds\<close>

text \<open>
  C8. An add that fails (an id that the scene does not know, a configuration whose
  type is no component type, a resolved component of another scene) returns nothing
  and changes no field of any Model and no component; it logs one diagnostic.
\<close>

theorem failed_add_changes_nothing:
  assumes "(\<exists>k. a = ComponentId k \<and> sceneComponents ext (scene_m (models w this)) k = None) \<or>
           (\<exists>cfg. a = ComponentConfig cfg \<and> \<not> isComponentType ext (typeOf cfg)) \<or>
           (\<exists>c. resolve ext this a w = Inr c \<and> scene_c (heap w c) \<noteq> scene_m (models w this))"
  shows "fst (addComponent ext this a w) = None \<and>
         models (snd (addComponent ext this a w)) = models w \<and>
         heap (snd (addComponent ext this a w)) = heap w \<and>
         length (diagnostics (snd (addComponent ext this a w))) = Suc (length (diagnostics w))"
  using assms by (auto simp: addComponent_def resolve_def)

theorem failed_add_changes_nothing_witness:
  "sceneComponents (ext0 True) (scene_m (models scene0 0)) ''nobody'' = None \<and>
   fst (addComponent (ext0 True) 0 (ComponentId ''nobody'') scene0) = None \<and>
   models (snd (addComponent (ext0 True) 0 (ComponentId ''nobody'') scene0)) = models scene0 \<and>
   heap (snd (addComponent (ext0 True) 0 (ComponentId ''nobody'') scene0)) = heap scene0 \<and>
   diagnostics (snd (addComponent (ext0 True) 0 (ComponentId ''nobody'') scene0))
     = [ComponentNotFound]"
proof -
  have unknown: "sceneComponents (ext0 True) (scene_m (models scene0 0)) ''nobody'' = None"
    by (simp add: scene_defs)
  have logged: "diagnostics (snd (addComponent (ext0 True) 0 (ComponentId ''nobody'') scene0))
     = [ComponentNotFound]"
    by (simp add: scene_defs operation_defs)
  from failed_add_changes_nothing [of "ComponentId ''nobody''" "ext0 True" scene0 0] unknown logged
  show ?thesis by simp
qed

subsection \<open>The consistency of the indices\<close>

lemma removeComponent_m_fields:
  "components (removeComponent_m c m) = delete_prop (components m) (id_c c)"
  "meshes (removeComponent_m c m) = delete_prop (meshes m) (id_c c)"
  "objects (removeComponent_m c m) = delete_prop (objects m) (id_c c)"
  "entities (removeComponent_m c m) =
     (if truthy (entityType c) then delete_prop (entities m) (id_c c) else entities m)"
  by (simp_all add: removeComponent_m_def Let_def truthy_def split: option.splits)

lemma addComponent_m_fields:
  "components (addComponent_m r c m) = set_prop (components m) (id_c c) r"
  "objects (addComponent_m r c m) =
     (if isObject c then set_prop (objects m) (id_c c) r else objects m)"
  "meshes (addComponent_m r c m) =
     (if isObject c \<and> isMesh c then set_prop (meshes m) (id_c c) r else meshes m)"
  "entities (addComponent_m r c m) =
     (if isObject c \<and> truthy (entityType c) then set_prop (entities m) (id_c c) r
      else entities m)"
  by (simp_all add: addComponent_m_def Let_def truthy_def split: option.splits)

lemma get_delete_Some:
  "get_prop (delete_prop al k) k' = Some r \<longleftrightarrow> k' \<noteq> k \<and> get_prop al k' = Some r"
  by (simp add: delete_conv')

lemma get_set_Some:
  "get_prop (set_prop al k v) k' = Some r \<longleftrightarrow> (if k' = k then r = v else get_prop al k' = Some r)"
  by (auto simp: update_conv')

lemma registry_invI:
  assumes "distinct (map fst (components m))" "distinct (map fst (meshes m))"
    "\<And>k r. get_prop (components m) k = Some r \<Longrightarrow> id_c (h r) = k"
    "\<And>k r. get_prop (objects m) k = Some r \<Longrightarrow> get_prop (components m) k = Some r"
    "\<And>k r. get_prop (meshes m) k = Some r \<Longrightarrow> get_prop (objects m) k = Some r"
    "\<And>k r. get_prop (meshes m) k = Some r \<Longrightarrow> isMesh (h r)"
    "\<And>k r. get_prop (components m) k = Some r \<Longrightarrow> isObject (h r) \<Longrightarrow> isMesh (h r) \<Longrightarrow>
       get_prop (meshes m) k = Some r"
  shows "registry_inv h m"
  unfolding registry_inv_def using assms by blast

lemma registry_invD:
  assumes "registry_inv h m"
  shows "distinct (map fst (components m))" "distinct (map fst (meshes m))"
    "\<And>k r. get_prop (components m) k = Some r \<Longrightarrow> id_c (h r) = k"
    "\<And>k r. get_prop (objects m) k = Some r \<Longrightarrow> get_prop (components m) k = Some r"
    "\<And>k r. get_prop (meshes m) k = Some r \<Longrightarrow> get_prop (objects m) k = Some r"
    "\<And>k r. get_prop (meshes m) k = Some r \<Longrightarrow> isMesh (h r)"
    "\<And>k r. get_prop (components m) k = Some r \<Longrightarrow> isObject (h r) \<Longrightarrow> isMesh (h r) \<Longrightarrow>
       get_prop (meshes m) k = Some r"
  using assms unfolding registry_inv_def by blast+

lemma entities_invD:
  assumes "entities_inv h m" "get_prop (entities m) k = Some r"
  shows "get_prop (objects m) k = Some r" "truthy (entityType (h r))"
  using assms unfolding entities_inv_def by blast+

lemma registry_inv_init: "registry_inv h (init i s)"
  by (simp add: registry_inv_def init_def)

lemma entities_inv_init: "entities_inv h (init i s)"
  by (simp add: entities_inv_def init_def)

lemma registry_inv_heap_cong:
  assumes "\<And>r. id_c (h' r) = id_c (h r)" "\<And>r. isObject (h' r) = isObject (h r)"
    "\<And>r. isMesh (h' r) = isMesh (h r)"
  shows "registry_inv h' m = registry_inv h m"
  by (simp add: registry_inv_def assms)

lemma entities_inv_heap_cong:
  assumes "\<And>r. entityType (h' r) = entityType (h r)"
  shows "entities_inv h' m = entities_inv h m"
  by (simp add: entities_inv_def assms)

lemma namesakes_agree_heap_cong:
  assumes "\<And>r. id_c (h' r) = id_c (h r)" "\<And>r. entityType (h' r) = entityType (h r)"
  shows "namesakes_agree h' = namesakes_agree h"
  by (simp add: namesakes_agree_def assms)

lemma registry_inv_remove:
  assumes inv: "registry_inv h m"
  shows "registry_inv h (removeComponent_m c m)"
proof -
  note D = registry_invD [OF inv]
  show ?thesis
  proof (rule registry_invI)
    show "distinct (map fst (components (removeComponent_m c m)))"
      by (simp add: removeComponent_m_fields distinct_delete D(1))
    show "distinct (map fst (meshes (removeComponent_m c m)))"
      by (simp add: removeComponent_m_fields distinct_delete D(2))
  next
    fix k r assume "get_prop (components (removeComponent_m c m)) k = Some r"
    then show "id_c (h r) = k"
      by (simp add: removeComponent_m_fields get_delete_Some D(3))
  next
    fix k r assume "get_prop (objects (removeComponent_m c m)) k = Some r"
    then show "get_prop (components (removeComponent_m c m)) k = Some r"
      by (simp add: removeComponent_m_fields get_delete_Some D(4))
  next
    fix k r assume "get_prop (meshes (removeComponent_m c m)) k = Some r"
    then show "get_prop (objects (removeComponent_m c m)) k = Some r"
      by (simp add: removeComponent_m_fields get_delete_Some D(5))
  next
    fix k r assume "get_prop (meshes (removeComponent_m c m)) k = Some r"
    then show "isMesh (h r)"
      by (auto simp: removeComponent_m_fields get_delete_Some dest: D(6))
  next
    fix k r assume "get_prop (components (removeComponent_m c m)) k = Some r"
      "isObject (h r)" "isMesh (h r)"
    then show "get_prop (meshes (removeComponent_m c m)) k = Some r"
      by (simp add: removeComponent_m_fields get_delete_Some D(7))
  qed
qed

lemma entities_inv_remove:
  assumes inv: "registry_inv h m" and ent: "entities_inv h m" and agree: "namesakes_agree h"
  shows "entities_inv h (removeComponent_m (h c) m)"
  unfolding entities_inv_def
proof (intro allI impI)
  fix k r assume a: "get_prop (entities (removeComponent_m (h c) m)) k = Some r"
  note D = registry_invD [OF inv]
  from a have e: "get_prop (entities m) k = Some r"
    by (simp add: removeComponent_m_fields get_delete_Some split: if_splits)
  note E = entities_invD [OF ent e]
  have "k \<noteq> id_c (h c)"
  proof (cases "truthy (entityType (h c))")
    case True
    with a show ?thesis by (simp add: removeComponent_m_fields get_delete_Some)
  next
    case False
    show ?thesis
    proof
      assume k: "k = id_c (h c)"
      from E(1) have "get_prop (components m) k = Some r" by (rule D(4))
      then have "id_c (h r) = id_c (h c)" using k by (simp add: D(3))
      with agree have "truthy (entityType (h r)) = truthy (entityType (h c))"
        unfolding namesakes_agree_def by blast
      with E(2) False show False by simp
    qed
  qed
  with E show "get_prop (objects (removeComponent_m (h c) m)) k = Some r \<and>
               truthy (entityType (h r))"
    by (simp add: removeComponent_m_fields get_delete_Some)
qed

lemma registry_inv_add:
  assumes inv: "registry_inv h m" and new: "get_prop (components m) (id_c (h r)) = None"
  shows "registry_inv h (addComponent_m r (h r) m)"
proof -
  note D = registry_invD [OF inv]
  have obj: "get_prop (objects m) (id_c (h r)) = None"
    using new D(4) by (cases "get_prop (objects m) (id_c (h r))") auto
  have mesh: "get_prop (meshes m) (id_c (h r)) = None"
    using obj D(5) by (cases "get_prop (meshes m) (id_c (h r))") auto
  show ?thesis
  proof (rule registry_invI)
    show "distinct (map fst (components (addComponent_m r (h r) m)))"
      by (simp add: addComponent_m_fields distinct_update D(1))
    show "distinct (map fst (meshes (addComponent_m r (h r) m)))"
      by (simp add: addComponent_m_fields distinct_update D(2))
  next
    fix k x assume "get_prop (components (addComponent_m r (h r) m)) k = Some x"
    then show "id_c (h x) = k"
      by (auto simp: addComponent_m_fields get_set_Some split: if_splits dest: D(3))
  next
    fix k x assume "get_prop (objects (addComponent_m r (h r) m)) k = Some x"
    then show "get_prop (components (addComponent_m r (h r) m)) k = Some x"
      using new by (auto simp: addComponent_m_fields get_set_Some split: if_splits dest: D(4))
  next
    fix k x assume "get_prop (meshes (addComponent_m r (h r) m)) k = Some x"
    then show "get_prop (objects (addComponent_m r (h r) m)) k = Some x"
      using obj by (auto simp: addComponent_m_fields get_set_Some split: if_splits dest: D(5))
  next
    fix k x assume "get_prop (meshes (addComponent_m r (h r) m)) k = Some x"
    then show "isMesh (h x)"
      by (auto simp: addComponent_m_fields get_set_Some split: if_splits dest: D(6))
  next
    fix k x assume "get_prop (components (addComponent_m r (h r) m)) k = Some x"
      "isObject (h x)" "isMesh (h x)"
    then show "get_prop (meshes (addComponent_m r (h r) m)) k = Some x"
      using mesh by (auto simp: addComponent_m_fields get_set_Some split: if_splits dest: D(7))
  qed
qed

lemma entities_inv_add:
  assumes inv: "registry_inv h m" and ent: "entities_inv h m"
    and new: "get_prop (components m) (id_c (h r)) = None"
  shows "entities_inv h (addComponent_m r (h r) m)"
  unfolding entities_inv_def
proof (intro allI impI)
  fix k x assume a: "get_prop (entities (addComponent_m r (h r) m)) k = Some x"
  note D = registry_invD [OF inv]
  have obj: "get_prop (objects m) (id_c (h r)) = None"
    using new D(4) by (cases "get_prop (objects m) (id_c (h r))") auto
  show "get_prop (objects (addComponent_m r (h r) m)) k = Some x \<and> truthy (entityType (h x))"
  proof (cases "k = id_c (h r)")
    case True
    have "get_prop (entities m) (id_c (h r)) = None"
      using obj entities_invD(1) [OF ent] by (cases "get_prop (entities m) (id_c (h r))") auto
    with a True show ?thesis
      by (auto simp: addComponent_m_fields get_set_Some split: if_splits)
  next
    case False
    with a have "get_prop (entities m) k = Some x"
      by (auto simp: addComponent_m_fields get_set_Some split: if_splits)
    from entities_invD [OF ent this] False show ?thesis
      by (auto simp: addComponent_m_fields get_set_Some)
  qed
qed

lemma world_invI:
  assumes "\<And>m. registry_inv (heap w) (models w m)"
    "e \<Longrightarrow> namesakes_agree (heap w)" "\<And>m. e \<Longrightarrow> entities_inv (heap w) (models w m)"
  shows "world_inv e w"
  unfolding world_inv_def using assms by blast

lemma world_invD:
  assumes "world_inv e w"
  shows "registry_inv (heap w) (models w m)"
    "e \<Longrightarrow> namesakes_agree (heap w)" "e \<Longrightarrow> entities_inv (heap w) (models w m)"
  using assms unfolding world_inv_def by blast+

lemma world_inv_created:
  "(e \<Longrightarrow> namesakes_agree h) \<Longrightarrow> world_inv e (created h ids scenes)"
  by (rule world_invI) (simp_all add: created_def registry_inv_init entities_inv_init)

lemma world_inv_log [simp]:
  "world_inv e (w\<lparr> diagnostics := ds \<rparr>) = world_inv e w"
  "world_inv e (w\<lparr> destroyed := rs \<rparr>) = world_inv e w"
  by (simp_all add: world_inv_def)

lemma world_inv_removeComponent:
  assumes "world_inv e w"
  shows "world_inv e (removeComponent this c w)"
proof (rule world_invI)
  note D = world_invD [OF assms]
  show "registry_inv (heap (removeComponent this c w)) (models (removeComponent this c w) m)" for m
    by (simp add: removeComponent_def registry_inv_remove D(1))
  show "namesakes_agree (heap (removeComponent this c w))" if e
    using that by (simp add: removeComponent_def D(2))
  show "entities_inv (heap (removeComponent this c w)) (models (removeComponent this c w) m)"
    if e for m
    using that by (simp add: removeComponent_def entities_inv_remove D)
qed

lemma world_inv_addedToModel:
  assumes "world_inv e w"
  shows "world_inv e (addedToModel this c w)"
proof -
  let ?h = "(heap w)(c := (heap w c)\<lparr> model := Some this \<rparr>)"
  have "registry_inv ?h m = registry_inv (heap w) m" for m
    by (rule registry_inv_heap_cong) simp_all
  moreover have "entities_inv ?h m = entities_inv (heap w) m" for m
    by (rule entities_inv_heap_cong) simp
  moreover have "namesakes_agree ?h = namesakes_agree (heap w)"
    by (rule namesakes_agree_heap_cong) simp_all
  ultimately show ?thesis
    using assms by (simp add: world_inv_def addedToModel_def)
qed

lemma removeComponent_frame:
  "heap (removeComponent other c w) = heap w"
  "get_prop (components (models w this)) k = None \<Longrightarrow>
   get_prop (components (models (removeComponent other c w) this)) k = None"
  by (auto simp: removeComponent_def removeComponent_m_fields delete_conv')

lemma world_inv_attach:
  assumes inv: "world_inv e w"
    and new: "get_prop (components (models w this)) (id_c (heap w c)) = None"
  shows "world_inv e (w\<lparr> models := (models w)(this :=
           addComponent_m c (heap w c) (models w this)) \<rparr>)"
proof (rule world_invI)
  note D = world_invD [OF inv]
  let ?w = "w\<lparr> models := (models w)(this := addComponent_m c (heap w c) (models w this)) \<rparr>"
  show "registry_inv (heap ?w) (models ?w m)" for m
    using new by (simp add: registry_inv_add D(1))
  show "namesakes_agree (heap ?w)" if e
    using that by (simp add: D(2))
  show "entities_inv (heap ?w) (models ?w m)" if e for m
    using that new by (simp add: entities_inv_add D)
qed

lemma world_inv_addComponent:
  assumes inv: "world_inv e w"
  shows "world_inv e (snd (addComponent ext this a w))"
proof (cases "resolve ext this a w")
  case (Inl d)
  with inv show ?thesis by (simp add: addComponent_def)
next
  case (Inr c)
  define w1 where "w1 = (case model (heap w c) of
       None \<Rightarrow> w
     | Some other \<Rightarrow>
         if id_m (models w other) \<noteq> id_m (models w this)
         then removeComponent other c w else w)"
  have inv1: "world_inv e w1"
    using inv by (simp add: w1_def world_inv_removeComponent split: option.splits)
  show ?thesis
  proof (cases "scene_c (heap w c) \<noteq> scene_m (models w this) \<or>
                get_prop (components (models w this)) (id_c (heap w c)) \<noteq> None")
    case True
    with Inr inv show ?thesis by (auto simp: addComponent_def)
  next
    case False
    then have "get_prop (components (models w1 this)) (id_c (heap w1 c)) = None"
      by (simp add: w1_def removeComponent_frame split: option.splits)
    with inv1 have "world_inv e (addedToModel this c (w1\<lparr> models := (models w1)(this :=
        addComponent_m c (heap w1 c) (models w1 this)) \<rparr>))"
      by (intro world_inv_addedToModel world_inv_attach)
    with Inr False show ?thesis
      by (simp add: addComponent_def Let_def w1_def)
  qed
qed

lemma world_inv_destroy: "world_inv e w \<Longrightarrow> world_inv e (destroy ext c w)"
  by (simp add: destroy_def Let_def world_inv_removeComponent split: option.splits)

lemma world_inv_destroyEach:
  "world_inv e w \<Longrightarrow> world_inv e (destroyEach ext this sel ids w)"
  by (induction ids arbitrary: w) (simp_all add: world_inv_destroy split: option.splits)

lemma registry_inv_reset:
  "registry_inv h (m\<lparr> components := [], numComponents := 0, types := [], objects := [],
                       meshes := [], entities := [] \<rparr>)"
  by (simp add: registry_inv_def)

lemma entities_inv_reset:
  "entities_inv h (m\<lparr> components := [], numComponents := 0, types := [], objects := [],
                       meshes := [], entities := [] \<rparr>)"
  by (simp add: entities_inv_def)

lemma world_inv_clear:
  assumes "world_inv e w"
  shows "world_inv e (clear ext this w)"
proof -
  let ?w2 = "destroyEach ext this components
     (Object_keys (components (models
        (destroyEach ext this meshes (Object_keys (meshes (models w this))) w) this)))
     (destroyEach ext this meshes (Object_keys (meshes (models w this))) w)"
  from assms have "world_inv e ?w2" by (intro world_inv_destroyEach)
  note D = world_invD [OF this]
  show ?thesis
    by (rule world_invI)
      (simp_all add: clear_def Let_def D registry_inv_reset entities_inv_reset)
qed

lemma inv_caches [simp]:
  "registry_inv h (m\<lparr> p_objectGUIDs := x \<rparr>) = registry_inv h m"
  "registry_inv h (m\<lparr> p_entityTypeIds := x \<rparr>) = registry_inv h m"
  "registry_inv h (m\<lparr> p_entityIds := x \<rparr>) = registry_inv h m"
  "entities_inv h (m\<lparr> p_objectGUIDs := x \<rparr>) = entities_inv h m"
  "entities_inv h (m\<lparr> p_entityTypeIds := x \<rparr>) = entities_inv h m"
  "entities_inv h (m\<lparr> p_entityIds := x \<rparr>) = entities_inv h m"
  by (simp_all add: registry_inv_def entities_inv_def)

lemma world_inv_reads:
  assumes "world_inv e w"
  shows "world_inv e (snd (objectGUIDs this w))" "world_inv e (snd (entityTypeIds this w))"
    "world_inv e (snd (entityIds this w))"
  using assms
  by (auto simp: objectGUIDs_def entityTypeIds_def entityIds_def Let_def world_inv_def
      split: option.splits)

lemma world_inv_apply_op: "world_inv e w \<Longrightarrow> world_inv e (apply_op ext w op)"
  by (cases op)
    (simp_all add: world_inv_addComponent world_inv_removeComponent world_inv_clear
      world_inv_reads)

lemma world_inv_run: "world_inv e w \<Longrightarrow> world_inv e (run ext w ops)"
  unfolding run_def by (induction ops arbitrary: w) (simp_all add: world_inv_apply_op)

lemma set_Object_keys: "set (Object_keys obj) = fst ` set obj"
  by (auto simp: Object_keys_def)

lemma distinct_Object_keys: "distinct (map fst obj) \<Longrightarrow> distinct (Object_keys obj)"
  by (auto simp: Object_keys_def)



lemma unique_ids_agree: "inj (\<lambda>r. id_c (h r)) \<Longrightarrow> namesakes_agree h"
  by (auto simp: namesakes_agree_def dest: injD)








subsection \<open>The order of destruction\<close>

lemma values_of_cong:
  "(\<And>k. k \<in> set ks \<Longrightarrow> get_prop a k = get_prop b k) \<Longrightarrow> values_of a ks = values_of b ks"
  by (induction ks) (simp_all split: option.splits)

lemma set_values_of: "set (values_of obj ks) = {r. \<exists>k \<in> set ks. get_prop obj k = Some r}"
  by (induction ks) (auto split: option.splits)

lemma destroy_effect:
  "destroyed (destroy ext c w) = destroyed w @ [c]"
  "heap (destroy ext c w) = heap w"
  by (simp_all add: destroy_def removeComponent_def Let_def split: option.splits)

lemma destroy_keeps_other_keys:
  assumes sel: "\<And>c m. sel (removeComponent_m c m) = delete_prop (sel m) (id_c c)"
    and "k \<noteq> id_c (heap w c)"
  shows "get_prop (sel (models (destroy ext c w) this)) k = get_prop (sel (models w this)) k"
  using assms(2)
  by (simp add: destroy_def removeComponent_def Let_def sel split: option.splits)

lemma destroyEach_log:
  assumes sel: "\<And>c m. sel (removeComponent_m c m) = delete_prop (sel m) (id_c c)"
  shows "distinct ks \<Longrightarrow>
    (\<And>k r. k \<in> set ks \<Longrightarrow> get_prop (sel (models w this)) k = Some r \<Longrightarrow> id_c (heap w r) = k) \<Longrightarrow>
    destroyed (destroyEach ext this sel ks w) = destroyed w @ values_of (sel (models w this)) ks"
proof (induction ks arbitrary: w)
  case Nil
  then show ?case by simp
next
  case (Cons k ks)
  show ?case
  proof (cases "get_prop (sel (models w this)) k")
    case None
    have "destroyed (destroyEach ext this sel ks w) = destroyed w @ values_of (sel (models w this)) ks"
      using Cons.prems by (intro Cons.IH) auto
    with None show ?thesis by simp
  next
    case (Some r)
    with Cons.prems(2) [of k r] have key: "id_c (heap w r) = k" by simp
    have same: "get_prop (sel (models (destroy ext r w) this)) k' = get_prop (sel (models w this)) k'"
      if "k' \<in> set ks" for k'
    proof -
      from that Cons.prems(1) have "k' \<noteq> k" by auto
      with key show ?thesis by (simp add: destroy_keeps_other_keys [OF sel])
    qed
    have "destroyed (destroyEach ext this sel ks (destroy ext r w))
            = destroyed (destroy ext r w) @ values_of (sel (models (destroy ext r w) this)) ks"
    proof (rule Cons.IH)
      from Cons.prems(1) show "distinct ks" by simp
    next
      fix k' r' assume "k' \<in> set ks"
        "get_prop (sel (models (destroy ext r w) this)) k' = Some r'"
      with same Cons.prems(2) [of k' r']
      show "id_c (heap (destroy ext r w) r') = k'"
        by (simp add: destroy_effect)
    qed
    moreover have "values_of (sel (models (destroy ext r w) this)) ks
                     = values_of (sel (models w this)) ks"
      by (rule values_of_cong) (rule same)
    ultimately show ?thesis using Some by (simp add: destroy_effect)
  qed
qed

lemma clear_log:
  assumes inv: "world_inv e w"
  shows "destroyed (clear ext this w) =
           destroyed w @
           values_of (meshes (models w this)) (Object_keys (meshes (models w this))) @
           values_of
             (components (models
                (destroyEach ext this meshes (Object_keys (meshes (models w this))) w) this))
             (Object_keys (components (models
                (destroyEach ext this meshes (Object_keys (meshes (models w this))) w) this)))"
proof -
  let ?w1 = "destroyEach ext this meshes (Object_keys (meshes (models w this))) w"
  note D = registry_invD [OF world_invD(1) [OF inv]]
  have first: "destroyed ?w1 = destroyed w @
      values_of (meshes (models w this)) (Object_keys (meshes (models w this)))"
  proof (rule destroyEach_log)
    show "meshes (removeComponent_m c m) = delete_prop (meshes m) (id_c c)" for c m
      by (simp add: removeComponent_m_fields)
    show "distinct (Object_keys (meshes (models w this)))"
      by (rule distinct_Object_keys) (rule D(2))
  next
    fix k r assume "get_prop (meshes (models w this)) k = Some r"
    then show "id_c (heap w r) = k" by (intro D(3) D(4) D(5))
  qed
  from inv have "world_inv e ?w1" by (rule world_inv_destroyEach)
  note E = registry_invD [OF world_invD(1) [OF this]]
  have second: "destroyed (destroyEach ext this components (Object_keys (components (models ?w1 this))) ?w1)
      = destroyed ?w1 @ values_of (components (models ?w1 this)) (Object_keys (components (models ?w1 this)))"
  proof (rule destroyEach_log)
    show "components (removeComponent_m c m) = delete_prop (components m) (id_c c)" for c m
      by (simp add: removeComponent_m_fields)
    show "distinct (Object_keys (components (models ?w1 this)))"
      by (rule distinct_Object_keys) (rule E(1))
  next
    fix k r assume "get_prop (components (models ?w1 this)) k = Some r"
    then show "id_c (heap ?w1 r) = k" by (rule E(3))
  qed
  show ?thesis
    by (simp add: clear_def Let_def first second)
qed


text \<open>
  C10. In one \<open>clear\<close>, in every world that the operations reach, the destroy
  notifications are those of all entries of \<open>meshes\<close>, in the order in which the
  loop of line 265 enumerates the keys, followed by those of the components that the
  first loop left in \<open>components\<close>, in the order of the loop of line 270; so every
  mesh-flagged object of the Model is notified before any component that is not
  mesh-flagged: it lies in the longest prefix of the notifications of this call that
  holds mesh-flagged components only. (A mesh that does not remove itself is notified
  a second time by the second loop.)
\<close>

theorem clear_destroys_meshes_first:
  assumes "w = run ext (created h ids scenes) ops"
  shows "destroyed (clear ext this w) =
           destroyed w @
           values_of (meshes (models w this)) (Object_keys (meshes (models w this))) @
           values_of
             (components (models
                (destroyEach ext this meshes (Object_keys (meshes (models w this))) w) this))
             (Object_keys (components (models
                (destroyEach ext this meshes (Object_keys (meshes (models w this))) w) this))) \<and>
         (\<forall>k r. get_prop (components (models w this)) k = Some r \<and>
                isObject (heap w r) \<and> isMesh (heap w r) \<longrightarrow>
                r \<in> set (takeWhile (\<lambda>x. isMesh (heap w x))
                          (drop (length (destroyed w)) (destroyed (clear ext this w)))))"
proof -
  have "world_inv False (created h ids scenes)"
    by (rule world_inv_created) simp
  with assms have inv: "world_inv False w" by (simp add: world_inv_run)
  note D = registry_invD [OF world_invD(1) [OF inv]]
  let ?ms = "values_of (meshes (models w this)) (Object_keys (meshes (models w this)))"
  let ?cs = "values_of
             (components (models
                (destroyEach ext this meshes (Object_keys (meshes (models w this))) w) this))
             (Object_keys (components (models
                (destroyEach ext this meshes (Object_keys (meshes (models w this))) w) this)))"
  have log: "destroyed (clear ext this w) = destroyed w @ ?ms @ ?cs"
    using inv by (rule clear_log)
  have flagged: "isMesh (heap w x)" if "x \<in> set ?ms" for x
  proof -
    from that obtain k where "get_prop (meshes (models w this)) k = Some x"
      by (auto simp: set_values_of)
    then show ?thesis by (rule D(6))
  qed
  have prefix: "takeWhile (\<lambda>x. isMesh (heap w x)) (?ms @ ?cs)
                  = ?ms @ takeWhile (\<lambda>x. isMesh (heap w x)) ?cs"
    by (rule takeWhile_append2) (rule flagged)
  have "r \<in> set (takeWhile (\<lambda>x. isMesh (heap w x))
                   (drop (length (destroyed w)) (destroyed (clear ext this w))))"
    if "get_prop (components (models w this)) k = Some r" "isObject (heap w r)" "isMesh (heap w r)"
    for k r
  proof -
    from that have m: "get_prop (meshes (models w this)) k = Some r" by (rule D(7))
    then have "(k, r) \<in> set (meshes (models w this))" by (rule map_of_SomeD)
    then have "k \<in> set (Object_keys (meshes (models w this)))"
      by (force simp: set_Object_keys)
    with m have "r \<in> set ?ms" by (auto simp: set_values_of)
    then show ?thesis by (simp add: log prefix)
  qed
  with log show ?thesis by blast
qed


lemmas numeric_defs = scene_numeric_def mesh_b_def mesh_1_def object_0_def

theorem clear_destroys_meshes_first_witness:
  "Object_keys (meshes (models (run (ext0 False) scene_numeric
      [Add 0 (ComponentInstance 0), Add 0 (ComponentInstance 1), Add 0 (ComponentInstance 2)]) 0))
     = [''1'', ''b''] \<and>
   Object_keys (components (models (run (ext0 False) scene_numeric
      [Add 0 (ComponentInstance 0), Add 0 (ComponentInstance 1), Add 0 (ComponentInstance 2)]) 0))
     = [''0'', ''1'', ''b''] \<and>
   destroyed (clear (ext0 False) 0 (run (ext0 False) scene_numeric
      [Add 0 (ComponentInstance 0), Add 0 (ComponentInstance 1), Add 0 (ComponentInstance 2)]))
     = [1, 0, 2, 1, 0] \<and>
   isMesh (heap scene_numeric 0) \<and> isMesh (heap scene_numeric 1) \<and>
   \<not> isMesh (heap scene_numeric 2) \<and>
   0 \<in> set (takeWhile (\<lambda>x. isMesh (heap scene_numeric x))
              (destroyed (clear (ext0 False) 0 (run (ext0 False) scene_numeric
                [Add 0 (ComponentInstance 0), Add 0 (ComponentInstance 1),
                 Add 0 (ComponentInstance 2)]))))"
proof -
  let ?ops = "[Add 0 (ComponentInstance 0), Add 0 (ComponentInstance 1),
               Add 0 (ComponentInstance 2)]"
  let ?w = "run (ext0 False) scene_numeric ?ops"
  have keys: "Object_keys (meshes (models ?w 0)) = [''1'', ''b'']"
    "Object_keys (components (models ?w 0)) = [''0'', ''1'', ''b'']"
    by (simp_all add: numeric_defs scene_defs operation_defs Let_def)
  have present: "get_prop (components (models ?w 0)) ''b'' = Some 0"
    by (simp add: numeric_defs scene_defs operation_defs Let_def)
  have flags: "isObject (heap ?w 0)" "isMesh (heap ?w 0)"
    "isMesh (heap scene_numeric 0)" "isMesh (heap scene_numeric 1)"
    "\<not> isMesh (heap scene_numeric 2)"
    by (simp_all add: numeric_defs scene_defs operation_defs Let_def)
  have log: "destroyed (clear (ext0 False) 0 ?w) = [1, 0, 2, 1, 0]"
    by (simp add: numeric_defs scene_defs operation_defs Let_def)
  have old: "destroyed ?w = []"
    by (simp add: numeric_defs scene_defs operation_defs Let_def)
  have heap_flag: "isMesh (heap ?w x) = isMesh (heap scene_numeric x)" for x
    by (simp add: numeric_defs scene_defs operation_defs Let_def)
  have start: "?w = run (ext0 False) (created ((\<lambda>_. plain)(0 := mesh_b, 1 := mesh_1, 2 := object_0))
                     (\<lambda>_. ''modelA'') (\<lambda>_. 0)) ?ops"
    by (simp only: scene_numeric_def)
  from clear_destroys_meshes_first [OF start, of 0]
  have "\<forall>k r. get_prop (components (models ?w 0)) k = Some r \<and>
                isObject (heap ?w r) \<and> isMesh (heap ?w r) \<longrightarrow>
                r \<in> set (takeWhile (\<lambda>x. isMesh (heap ?w x))
                          (drop (length (destroyed ?w)) (destroyed (clear (ext0 False) 0 ?w))))"
    by (rule conjunct2)
  with present flags(1,2)
  have "0 \<in> set (takeWhile (\<lambda>x. isMesh (heap ?w x))
                          (drop (length (destroyed ?w)) (destroyed (clear (ext0 False) 0 ?w))))"
    by blast
  then have "0 \<in> set (takeWhile (\<lambda>x. isMesh (heap scene_numeric x))
                        (destroyed (clear (ext0 False) 0 ?w)))"
    by (simp only: old heap_flag list.size drop_0)
  with keys flags(3,4,5) log show ?thesis by blast
qed

end
